theory Spec2Isabelle
  imports Main "HOL-Library.Word"
begin

section \<open>The batching transaction of the backend (mvcc/backend/batch\_tx.go)\<close>

text \<open>
  The file under verification is the write-batching layer of the backend: a
  \<open>batchTx\<close> owns one write transaction of the embedded store (bbolt), counts the
  mutations applied to it in \<open>pending\<close>, and decides in \<open>Unlock\<close> whether to commit
  and reopen.  The embedding is shallow and sequential: every Go method becomes a
  function from the state before the call to either a \<open>failure\<close> (the process
  terminates, or the call cannot proceed) or the state after the call.
\<close>

subsection \<open>Machine integers and byte slices\<close>

text \<open>
  Go's \<open>int64\<close> is a 64-bit word; Go's \<open>int\<close> is taken at its 64-bit width (the
  platforms etcd supports).  \<open>+\<close> wraps around, comparisons of the source are signed
  and therefore read the word through \<open>sint\<close>.  A \<open>[]byte\<close> of which the source and
  the store only ask the length and the bytes (a key, an end key, the name of a
  bucket) is a list of 8-bit words: a \<open>nil\<close> slice and an empty slice are both the
  empty list.  A \<open>[]byte\<close> of which they ask whether it is \<open>nil\<close> (a value) is a
  \<open>slice\<close>: \<open>None\<close> is the \<open>nil\<close> slice, \<open>Some bs\<close> a slice that is not \<open>nil\<close>, and
  \<open>Some []\<close> the empty one among these.
\<close>

type_synonym int64 = "64 word"
type_synonym go_int = "64 word"
type_synonym bytes = "8 word list"
type_synonym slice = "bytes option"

text \<open>\<open>len\<close> of a slice: a \<open>nil\<close> slice has length 0.\<close>

definition slice_len :: "slice \<Rightarrow> nat" where
  "slice_len v = (case v of None \<Rightarrow> 0 | Some bs \<Rightarrow> length bs)"

text \<open>\<open>bytes.Compare\<close> of the Go library: lexicographic on unsigned bytes, result -1, 0 or 1.\<close>

fun bytes_Compare :: "bytes \<Rightarrow> bytes \<Rightarrow> int" where
  "bytes_Compare [] [] = 0"
| "bytes_Compare [] (y # ys) = - 1"
| "bytes_Compare (x # xs) [] = 1"
| "bytes_Compare (x # xs) (y # ys) =
     (if x < y then - 1 else if y < x then 1 else bytes_Compare xs ys)"

subsection \<open>The contract of the store\<close>

text \<open>
  The store is an external library; the batching layer uses it through transactions,
  buckets and cursors.  It is modelled by its contract: a bucket is its key/value
  pairs in cursor order, a write transaction is a working copy of the buckets, the
  database holds the committed buckets.  A transaction holds the value of a put
  as the slice that was put, \<open>nil\<close> if it was \<open>nil\<close>; the database holds bytes, and
  a value read from it is never \<open>nil\<close>.  Two counters record what has been asked of
  the store: \<open>flushes\<close> counts the durable commits it has performed and \<open>begins\<close> the
  write transactions it has opened.  What the store alone decides is a parameter
  of the database: \<open>page_acct n\<close> is its page accounting after \<open>n\<close> commits (the size a
  transaction begun then reports, and the number of free pages) and
  \<open>commit_fault n\<close> is the error, if any, with which the commit following \<open>n\<close>
  successful ones fails.
\<close>

datatype bolt_error =
    ErrBucketExists
  | ErrBucketNameRequired
  | ErrTxClosed
  | ErrKeyRequired
  | ErrKeyTooLarge
  | ErrValueTooLarge
  | ErrDatabaseNotOpen
  | ErrDisk

type_synonym pairs = "(bytes \<times> slice) list"
type_synonym page = "(bytes \<times> bytes) list"

record bolt_Bucket =
  pairs_of :: pairs
  FillPercent :: nat \<comment> \<open>in percent: the store's default is 50, the source sets 0.9\<close>

record bolt_Tx =
  tx_open :: bool \<comment> \<open>false once the transaction has been committed\<close>
  buckets :: "(bytes \<times> bolt_Bucket) list"
  tx_Size :: int64 \<comment> \<open>what \<open>Size()\<close> reports\<close>

record bolt_DB =
  opened :: bool
  writer :: bool \<comment> \<open>a write transaction is open (the store admits one at a time)\<close>
  committed :: "(bytes \<times> page) list"
  flushes :: nat
  begins :: nat
  page_acct :: "nat \<Rightarrow> int64 \<times> go_int"
  PageSize :: go_int
  commit_fault :: "nat \<Rightarrow> bolt_error option"

text \<open>
  Insertion into a list of pairs kept in ascending key order, replacing the value of
  a key that is there; used for the pairs of a bucket and for the buckets of a
  transaction.
\<close>

fun put_pair :: "bytes \<Rightarrow> 'v \<Rightarrow> (bytes \<times> 'v) list \<Rightarrow> (bytes \<times> 'v) list" where
  "put_pair k v [] = [(k, v)]"
| "put_pair k v ((k', v') # rest) =
     (if bytes_Compare k k' < 0 then (k, v) # (k', v') # rest
      else if bytes_Compare k k' = 0 then (k, v) # rest
      else (k', v') # put_pair k v rest)"

fun delete_pair :: "bytes \<Rightarrow> (bytes \<times> 'v) list \<Rightarrow> (bytes \<times> 'v) list" where
  "delete_pair k [] = []"
| "delete_pair k ((k', v') # rest) =
     (if bytes_Compare k k' = 0 then rest else (k', v') # delete_pair k rest)"

text \<open>The keys of a well-formed bucket are strictly ascending in \<open>bytes.Compare\<close>.\<close>

definition ascending :: "bytes list \<Rightarrow> bool" where
  "ascending ks = sorted_wrt (\<lambda>a b. bytes_Compare a b < 0) ks"

text \<open>
  The pairs of a bucket as the commit writes them (of a \<open>nil\<close> value no byte is
  written) and as a transaction reads them back (no value is \<open>nil\<close>).
\<close>

definition to_page :: "pairs \<Rightarrow> page" where
  "to_page ps = map (\<lambda>(k, v). (k, case v of None \<Rightarrow> [] | Some bs \<Rightarrow> bs)) ps"

definition of_page :: "page \<Rightarrow> pairs" where
  "of_page pg = map (\<lambda>(k, bs). (k, Some bs)) pg"

definition new_bucket :: bolt_Bucket where
  "new_bucket = \<lparr>pairs_of = [], FillPercent = 50\<rparr>"

text \<open>\<open>Tx.CreateBucket\<close>: the transaction must be open, the name non-empty and new.\<close>

definition Tx_CreateBucket :: "bolt_Tx \<Rightarrow> bytes \<Rightarrow> bolt_error + bolt_Tx" where
  "Tx_CreateBucket x name =
     (if \<not> tx_open x then Inl ErrTxClosed
      else if name = [] then Inl ErrBucketNameRequired
      else if map_of (buckets x) name \<noteq> None then Inl ErrBucketExists
      else Inr (x\<lparr>buckets := put_pair name new_bucket (buckets x)\<rparr>))"

text \<open>
  \<open>Bucket.Put\<close>, with the store's limits on keys and values.  The transaction
  holds the slice as it is given: a \<open>nil\<close> value is held as \<open>nil\<close>.
\<close>

definition MaxKeySize :: nat where
  "MaxKeySize = 32768"

definition MaxValueSize :: nat where
  "MaxValueSize = 2147483646"

definition Bucket_Put :: "bolt_Bucket \<Rightarrow> bytes \<Rightarrow> slice \<Rightarrow> bolt_error + bolt_Bucket" where
  "Bucket_Put b key val =
     (if key = [] then Inl ErrKeyRequired
      else if length key > MaxKeySize then Inl ErrKeyTooLarge
      else if slice_len val > MaxValueSize then Inl ErrValueTooLarge
      else Inr (b\<lparr>pairs_of := put_pair key val (pairs_of b)\<rparr>))"

text \<open>\<open>Bucket.Delete\<close>: removing an absent key is not an error.\<close>

definition Bucket_Delete :: "bolt_Bucket \<Rightarrow> bytes \<Rightarrow> bolt_error + bolt_Bucket" where
  "Bucket_Delete b key = Inr (b\<lparr>pairs_of := delete_pair key (pairs_of b)\<rparr>)"

text \<open>
  \<open>Bucket.Get\<close>: the slice the transaction holds for the key, \<open>nil\<close> for an absent
  key.  For a key whose value was put as \<open>nil\<close> in this transaction that slice is
  \<open>nil\<close> too.
\<close>

definition Bucket_Get :: "bolt_Bucket \<Rightarrow> bytes \<Rightarrow> slice" where
  "Bucket_Get b key = (case map_of (pairs_of b) key of None \<Rightarrow> None | Some v \<Rightarrow> v)"

text \<open>\<open>Cursor.Seek\<close>: the pairs from the first key not below \<open>key\<close> on, in cursor order.\<close>

definition Cursor_Seek :: "bytes \<Rightarrow> pairs \<Rightarrow> pairs" where
  "Cursor_Seek key ps = dropWhile (\<lambda>(k, v). bytes_Compare k key < 0) ps"

text \<open>
  \<open>Bucket.ForEach\<close>: the visitor is called on each pair in cursor order until it
  returns an error.  A Go visitor is a closure; whatever it changes is the state
  \<open>'s\<close> that is threaded through its calls.
\<close>

type_synonym go_error = string
type_synonym 's visitor = "bytes \<Rightarrow> slice \<Rightarrow> 's \<Rightarrow> go_error option \<times> 's"

fun Bucket_ForEach :: "'s visitor \<Rightarrow> pairs \<Rightarrow> 's \<Rightarrow> go_error option \<times> 's" where
  "Bucket_ForEach fn [] s = (None, s)"
| "Bucket_ForEach fn ((k, v) # rest) s =
     (case fn k v s of
        (Some err, s') \<Rightarrow> (Some err, s')
      | (None, s') \<Rightarrow> Bucket_ForEach fn rest s')"

text \<open>
  \<open>Tx.Commit\<close>: a closed transaction is refused; otherwise the working copy becomes
  the committed state (one more flush) and the transaction is closed, unless the
  write fails.
\<close>

definition Tx_Commit :: "bolt_Tx \<Rightarrow> bolt_DB \<Rightarrow> bolt_error + (bolt_Tx \<times> bolt_DB)" where
  "Tx_Commit x d =
     (if \<not> tx_open x then Inl ErrTxClosed
      else case commit_fault d (flushes d) of
        Some e \<Rightarrow> Inl e
      | None \<Rightarrow>
          Inr (x\<lparr>tx_open := False\<rparr>,
               d\<lparr>writer := False,
                 committed := map (\<lambda>(n, b). (n, to_page (pairs_of b))) (buckets x),
                 flushes := flushes d + 1\<rparr>))"

text \<open>
  \<open>DB.Begin(true)\<close>: waits for the open write transaction, if there is one; fails on
  a database that is not open; otherwise returns a new write transaction on the
  committed state.
\<close>

datatype failure =
    Fatalf_create_bucket bolt_error \<comment> \<open>"cannot create bucket"\<close>
  | Fatalf_no_bucket \<comment> \<open>"bucket does not exist"\<close>
  | Fatalf_put bolt_error \<comment> \<open>"cannot put key into bucket"\<close>
  | Fatalf_delete bolt_error \<comment> \<open>"cannot delete key from bucket"\<close>
  | Fatalf_commit bolt_error \<comment> \<open>"cannot commit tx"\<close>
  | Fatalf_begin bolt_error \<comment> \<open>"cannot begin tx"\<close>
  | Panic_nil_tx \<comment> \<open>a method of the store called through a nil handle\<close>
  | Panic_tx_closed \<comment> \<open>the store's assertion on the use of a closed transaction\<close>
  | Fatal_unlock \<comment> \<open>unlock of an unlocked mutex\<close>
  | Blocked \<comment> \<open>the call waits for a lock that is held\<close>

definition DB_Begin :: "bolt_DB \<Rightarrow> failure + (bolt_error + bolt_Tx \<times> bolt_DB)" where
  "DB_Begin d =
     (if writer d then Inl Blocked
      else if \<not> opened d then Inr (Inl ErrDatabaseNotOpen)
      else Inr (Inr (\<lparr>tx_open = True,
                      buckets = map (\<lambda>(n, pg). (n, \<lparr>pairs_of = of_page pg, FillPercent = 50\<rparr>)) (committed d),
                      tx_Size = fst (page_acct d (flushes d))\<rparr>,
                     d\<lparr>writer := True, begins := begins d + 1\<rparr>)))"

text \<open>\<open>Tx.Bucket\<close>: \<open>nil\<close> for a name that is not there; a closed transaction panics.\<close>

definition Tx_Bucket :: "bolt_Tx \<Rightarrow> bytes \<Rightarrow> failure + bolt_Bucket option" where
  "Tx_Bucket x name =
     (if \<not> tx_open x then Inl Panic_tx_closed else Inr (map_of (buckets x) name))"

subsection \<open>The state: backend and batchTx\<close>

text \<open>
  The fields of \<open>backend\<close> that batch\_tx.go reads and writes: the threshold, the three
  metrics, the database, and whether its lock \<open>mu\<close> is held exclusively by a
  whole-store operation.  \<open>batchTx\<close> has the three fields of the source and the state
  of its embedded mutex.  The source holds a pointer to the backend; in a
  sequential run the backend is a part of the state of the batchTx.
\<close>

record backend =
  batchLimit :: go_int
  commits :: int64
  size_metric :: int64 \<comment> \<open>the field \<open>size\<close>\<close>
  sizeInUse :: int64
  db :: bolt_DB
  mu_excl :: bool

record batchTx =
  locked :: bool
  tx :: "bolt_Tx option"
  backend :: backend
  pending :: go_int

subsection \<open>The operations\<close>

definition Lock :: "batchTx \<Rightarrow> failure + batchTx" where
  "Lock t = (if locked t then Inl Blocked else Inr (t\<lparr>locked := True\<rparr>))"

definition Mutex_Unlock :: "batchTx \<Rightarrow> failure + batchTx" where
  "Mutex_Unlock t = (if locked t then Inr (t\<lparr>locked := False\<rparr>) else Inl Fatal_unlock)"

definition UnsafeCreateBucket :: "bytes \<Rightarrow> batchTx \<Rightarrow> failure + batchTx" where
  "UnsafeCreateBucket name t =
     (case tx t of
        None \<Rightarrow> Inl Panic_nil_tx
      | Some x \<Rightarrow>
          (case Tx_CreateBucket x name of
             Inl err \<Rightarrow>
               if err \<noteq> ErrBucketExists then Inl (Fatalf_create_bucket err)
               else Inr (t\<lparr>pending := pending t + 1\<rparr>)
           | Inr x' \<Rightarrow> Inr (t\<lparr>tx := Some x', pending := pending t + 1\<rparr>)))"

definition unsafePut :: "bytes \<Rightarrow> bytes \<Rightarrow> slice \<Rightarrow> bool \<Rightarrow> batchTx \<Rightarrow> failure + batchTx" where
  "unsafePut bucketName key val seq t =
     (case tx t of
        None \<Rightarrow> Inl Panic_nil_tx
      | Some x \<Rightarrow>
          (case Tx_Bucket x bucketName of
             Inl f \<Rightarrow> Inl f
           | Inr None \<Rightarrow> Inl Fatalf_no_bucket
           | Inr (Some bucket) \<Rightarrow>
               (let bucket1 = (if seq then bucket\<lparr>FillPercent := 90\<rparr> else bucket) in
                case Bucket_Put bucket1 key val of
                  Inl err \<Rightarrow> Inl (Fatalf_put err)
                | Inr bucket2 \<Rightarrow>
                    Inr (t\<lparr>tx := Some (x\<lparr>buckets := put_pair bucketName bucket2 (buckets x)\<rparr>),
                           pending := pending t + 1\<rparr>))))"

definition UnsafePut :: "bytes \<Rightarrow> bytes \<Rightarrow> slice \<Rightarrow> batchTx \<Rightarrow> failure + batchTx" where
  "UnsafePut bucketName key val t = unsafePut bucketName key val False t"

definition UnsafeSeqPut :: "bytes \<Rightarrow> bytes \<Rightarrow> slice \<Rightarrow> batchTx \<Rightarrow> failure + batchTx" where
  "UnsafeSeqPut bucketName key val t = unsafePut bucketName key val True t"

text \<open>
  The loop of \<open>UnsafeRange\<close> over the cursor: \<open>ps\<close> are the pairs from the cursor's
  position on.  \<open>limit\<close> is an \<open>int64\<close>; the length of a Go slice is below \<open>2 ^ 63\<close>, so
  \<open>limit == int64(len(keys))\<close> compares the signed value of \<open>limit\<close> with the length.
\<close>

fun range_loop :: "bytes \<Rightarrow> int64 \<Rightarrow> pairs \<Rightarrow> bytes list \<Rightarrow> slice list \<Rightarrow> bytes list \<times> slice list" where
  "range_loop endKey limit [] keys vs = (keys, vs)"
| "range_loop endKey limit ((ck, cv) # rest) keys vs =
     (if bytes_Compare ck endKey < 0 then
        (let vs' = vs @ [cv]; keys' = keys @ [ck] in
         if 0 < sint limit \<and> sint limit = int (length keys') then (keys', vs')
         else range_loop endKey limit rest keys' vs')
      else (keys, vs))"

text \<open>
  \<open>UnsafeRange\<close>.  The point lookup decides by \<open>v == nil\<close>: when \<open>Get\<close> returns \<open>nil\<close>
  the two slices are returned as they are, empty; otherwise the key and the
  value, which is not \<open>nil\<close>, are appended.  The scan appends the value of the
  cursor as it is, \<open>nil\<close> or not.
\<close>

definition UnsafeRange :: "bytes \<Rightarrow> bytes \<Rightarrow> bytes \<Rightarrow> int64 \<Rightarrow> batchTx \<Rightarrow> failure + bytes list \<times> slice list" where
  "UnsafeRange bucketName key endKey limit t =
     (case tx t of
        None \<Rightarrow> Inl Panic_nil_tx
      | Some x \<Rightarrow>
          (case Tx_Bucket x bucketName of
             Inl f \<Rightarrow> Inl f
           | Inr None \<Rightarrow> Inl Fatalf_no_bucket
           | Inr (Some bucket) \<Rightarrow>
               if length endKey = 0 then
                 (case Bucket_Get bucket key of
                    None \<Rightarrow> Inr ([], [])
                  | Some v \<Rightarrow> Inr ([key], [Some v]))
               else Inr (range_loop endKey limit (Cursor_Seek key (pairs_of bucket)) [] [])))"

definition UnsafeDelete :: "bytes \<Rightarrow> bytes \<Rightarrow> batchTx \<Rightarrow> failure + batchTx" where
  "UnsafeDelete bucketName key t =
     (case tx t of
        None \<Rightarrow> Inl Panic_nil_tx
      | Some x \<Rightarrow>
          (case Tx_Bucket x bucketName of
             Inl f \<Rightarrow> Inl f
           | Inr None \<Rightarrow> Inl Fatalf_no_bucket
           | Inr (Some bucket) \<Rightarrow>
               (case Bucket_Delete bucket key of
                  Inl err \<Rightarrow> Inl (Fatalf_delete err)
                | Inr bucket' \<Rightarrow>
                    Inr (t\<lparr>tx := Some (x\<lparr>buckets := put_pair bucketName bucket' (buckets x)\<rparr>),
                           pending := pending t + 1\<rparr>))))"

definition UnsafeForEach :: "bytes \<Rightarrow> 's visitor \<Rightarrow> batchTx \<Rightarrow> 's \<Rightarrow> failure + go_error option \<times> 's" where
  "UnsafeForEach bucketName visitor t s =
     (case tx t of
        None \<Rightarrow> Inl Panic_nil_tx
      | Some x \<Rightarrow>
          (case Tx_Bucket x bucketName of
             Inl f \<Rightarrow> Inl f
           | Inr None \<Rightarrow> Inr (None, s)
           | Inr (Some b) \<Rightarrow> Inr (Bucket_ForEach visitor (pairs_of b) s)))"

text \<open>
  \<open>commit\<close>, second half (from \<open>if stop\<close> on): under the shared lock of the backend,
  begin a new transaction and publish \<open>size\<close> and \<open>sizeInUse\<close>.
\<close>

definition commit_begin :: "bool \<Rightarrow> batchTx \<Rightarrow> failure + batchTx" where
  "commit_begin stop t =
     (if stop then Inr t
      else if mu_excl (backend t) then Inl Blocked
      else case DB_Begin (db (backend t)) of
        Inl f \<Rightarrow> Inl f
      | Inr (Inl err) \<Rightarrow> Inl (Fatalf_begin err)
      | Inr (Inr (x, d)) \<Rightarrow>
          (let size = tx_Size x in
           Inr (t\<lparr>tx := Some x,
                  backend := (backend t)
                    \<lparr>db := d,
                     size_metric := size,
                     sizeInUse := size - snd (page_acct d (flushes d)) * PageSize d\<rparr>\<rparr>)))"

text \<open>
  \<open>commit\<close>: with a handle, return at once when nothing is pending and no stop is
  asked; otherwise commit the transaction, count the commit and reset \<open>pending\<close>.
  A failed commit ends the process (the counter and \<open>pending\<close> are written before
  the error is looked at, in a process that then terminates).
\<close>

definition commit :: "bool \<Rightarrow> batchTx \<Rightarrow> failure + batchTx" where
  "commit stop t =
     (case tx t of
        Some x \<Rightarrow>
          if pending t = 0 \<and> \<not> stop then Inr t
          else (case Tx_Commit x (db (backend t)) of
                  Inl err \<Rightarrow> Inl (Fatalf_commit err)
                | Inr (x', d) \<Rightarrow>
                    commit_begin stop
                      (t\<lparr>tx := Some x',
                         backend := (backend t)\<lparr>commits := commits (backend t) + 1, db := d\<rparr>,
                         pending := 0\<rparr>))
      | None \<Rightarrow> commit_begin stop t)"

definition Unlock :: "batchTx \<Rightarrow> failure + batchTx" where
  "Unlock t =
     (if sint (batchLimit (backend t)) \<le> sint (pending t) then
        (case commit False t of
           Inl f \<Rightarrow> Inl f
         | Inr t' \<Rightarrow> Mutex_Unlock (t'\<lparr>pending := 0\<rparr>))
      else Mutex_Unlock t)"

definition Commit :: "batchTx \<Rightarrow> failure + batchTx" where
  "Commit t =
     (case Lock t of
        Inl f \<Rightarrow> Inl f
      | Inr t1 \<Rightarrow>
          (case commit False t1 of
             Inl f \<Rightarrow> Inl f
           | Inr t2 \<Rightarrow> Unlock t2))"

definition CommitAndStop :: "batchTx \<Rightarrow> failure + batchTx" where
  "CommitAndStop t =
     (case Lock t of
        Inl f \<Rightarrow> Inl f
      | Inr t1 \<Rightarrow>
          (case commit True t1 of
             Inl f \<Rightarrow> Inl f
           | Inr t2 \<Rightarrow> Unlock t2))"

text \<open>The struct literal of \<open>newBatchTx\<close>: only \<open>backend\<close> is set.\<close>

definition batchTx_literal :: "backend \<Rightarrow> batchTx" where
  "batchTx_literal b = \<lparr>locked = False, tx = None, backend = b, pending = 0\<rparr>"

definition newBatchTx :: "backend \<Rightarrow> failure + batchTx" where
  "newBatchTx b = Commit (batchTx_literal b)"

subsection \<open>The interface \<open>BatchTx\<close>\<close>

text \<open>
  The ten methods of the interface as the steps of a batchTx.  A step returns what
  the Go method returns: nothing, the two slices of \<open>UnsafeRange\<close>, or the \<open>error\<close> of
  \<open>UnsafeForEach\<close>.  The state of the caller (what its visitor writes) is the second
  component of the state.
\<close>

datatype 's op =
    Op_Lock
  | Op_Unlock
  | Op_UnsafeCreateBucket bytes
  | Op_UnsafePut bytes bytes slice
  | Op_UnsafeSeqPut bytes bytes slice
  | Op_UnsafeRange bytes bytes bytes int64
  | Op_UnsafeDelete bytes bytes
  | Op_UnsafeForEach bytes "'s visitor"
  | Op_Commit
  | Op_CommitAndStop

datatype result =
    Returns_nothing
  | Returns_slices "bytes list" "slice list"
  | Returns_error "go_error option"

definition no_result :: "'s \<Rightarrow> failure + batchTx \<Rightarrow> failure + result \<times> batchTx \<times> 's" where
  "no_result s r = (case r of Inl f \<Rightarrow> Inl f | Inr t' \<Rightarrow> Inr (Returns_nothing, t', s))"

fun run_op :: "'s op \<Rightarrow> batchTx \<times> 's \<Rightarrow> failure + result \<times> batchTx \<times> 's" where
  "run_op Op_Lock (t, s) = no_result s (Lock t)"
| "run_op Op_Unlock (t, s) = no_result s (Unlock t)"
| "run_op (Op_UnsafeCreateBucket name) (t, s) = no_result s (UnsafeCreateBucket name t)"
| "run_op (Op_UnsafePut b k v) (t, s) = no_result s (UnsafePut b k v t)"
| "run_op (Op_UnsafeSeqPut b k v) (t, s) = no_result s (UnsafeSeqPut b k v t)"
| "run_op (Op_UnsafeRange b k e l) (t, s) =
     (case UnsafeRange b k e l t of
        Inl f \<Rightarrow> Inl f
      | Inr (keys, vs) \<Rightarrow> Inr (Returns_slices keys vs, t, s))"
| "run_op (Op_UnsafeDelete b k) (t, s) = no_result s (UnsafeDelete b k t)"
| "run_op (Op_UnsafeForEach b visitor) (t, s) =
     (case UnsafeForEach b visitor t s of
        Inl f \<Rightarrow> Inl f
      | Inr (err, s') \<Rightarrow> Inr (Returns_error err, t, s'))"
| "run_op Op_Commit (t, s) = no_result s (Commit t)"
| "run_op Op_CommitAndStop (t, s) = no_result s (CommitAndStop t)"

text \<open>A sequence of calls, stopping at the first that fails.\<close>

fun run_ops :: "'s op list \<Rightarrow> batchTx \<times> 's \<Rightarrow> failure + batchTx \<times> 's" where
  "run_ops [] st = Inr st"
| "run_ops (opn # ops) st =
     (case run_op opn st of
        Inl f \<Rightarrow> Inl f
      | Inr (r, st') \<Rightarrow> run_ops ops st')"

text \<open>The methods that count a mutation in \<open>pending\<close>.\<close>

fun is_mutation :: "'s op \<Rightarrow> bool" where
  "is_mutation (Op_UnsafeCreateBucket name) = True"
| "is_mutation (Op_UnsafePut b k v) = True"
| "is_mutation (Op_UnsafeSeqPut b k v) = True"
| "is_mutation (Op_UnsafeDelete b k) = True"
| "is_mutation _ = False"

text \<open>The methods that call \<open>commit\<close>.\<close>

fun calls_commit :: "'s op \<Rightarrow> bool" where
  "calls_commit Op_Unlock = True"
| "calls_commit Op_Commit = True"
| "calls_commit Op_CommitAndStop = True"
| "calls_commit _ = False"

text \<open>
  Nothing can be pending without a handle: every method that counts a mutation
  goes through the handle first.  The struct literal satisfies this and every
  method keeps it (lemmas \<open>handle_inv_literal\<close> and \<open>handle_inv_run_op\<close>).
\<close>

definition handle_inv :: "batchTx \<Rightarrow> bool" where
  "handle_inv t = (tx t = None \<longrightarrow> pending t = 0)"

subsection \<open>A visitor that records its calls\<close>

text \<open>
  \<open>traced fn\<close> behaves as the visitor \<open>fn\<close> and appends each call, with what \<open>fn\<close>
  returned, to a trace kept beside the state of \<open>fn\<close>.
\<close>

definition traced :: "'s visitor \<Rightarrow> ('s \<times> (bytes \<times> slice \<times> go_error option) list) visitor" where
  "traced fn k v st =
     (case st of (s, calls) \<Rightarrow>
        (case fn k v s of (r, s') \<Rightarrow> (r, (s', calls @ [(k, v, r)]))))"

text \<open>The pairs a recorded run has visited, and what the visitor returned on each.\<close>

definition visited :: "(bytes \<times> slice \<times> go_error option) list \<Rightarrow> pairs" where
  "visited calls = map (\<lambda>(k, v, r). (k, v)) calls"

definition returned :: "(bytes \<times> slice \<times> go_error option) list \<Rightarrow> go_error option list" where
  "returned calls = map (\<lambda>(k, v, r). r) calls"


subsection \<open>The range of the specification\<close>




subsection \<open>Concrete states\<close>

text \<open>
  A database with one bucket \<open>"k"\<close> holding the keys \<open>"a"\<close>, \<open>"b"\<close>, \<open>"c"\<close> (bytes 97, 98,
  99), 16384 bytes large and growing by a page of 4096 bytes with each commit; a
  backend on it with threshold \<open>K\<close>; and the batchTx on that backend after
  \<open>newBatchTx\<close>, with \<open>p\<close> mutations pending and its lock held or not.
\<close>

definition ex_page :: page where
  "ex_page = [([97], [1]), ([98], [2]), ([99], [3])]"

definition ex_pairs :: pairs where
  "ex_pairs = [([97], Some [1]), ([98], Some [2]), ([99], Some [3])]"

definition ex_db :: bolt_DB where
  "ex_db = \<lparr>opened = True, writer = False,
            committed = [([107], ex_page)],
            flushes = 0, begins = 0,
            page_acct = (\<lambda>n. (word_of_nat (16384 + 4096 * n), word_of_nat n)),
            PageSize = 4096,
            commit_fault = (\<lambda>n. None)\<rparr>"

definition ex_backend :: "go_int \<Rightarrow> backend" where
  "ex_backend K =
     \<lparr>batchLimit = K, commits = 0, size_metric = 0, sizeInUse = 0, db = ex_db, mu_excl = False\<rparr>"

definition ex_tx :: bolt_Tx where
  "ex_tx = \<lparr>tx_open = True,
            buckets = [([107], \<lparr>pairs_of = ex_pairs, FillPercent = 50\<rparr>)],
            tx_Size = 16384\<rparr>"

definition ex_state :: "go_int \<Rightarrow> go_int \<Rightarrow> bool \<Rightarrow> batchTx" where
  "ex_state K p l =
     \<lparr>locked = l,
      tx = Some ex_tx,
      backend = \<lparr>batchLimit = K, commits = 0, size_metric = 16384, sizeInUse = 16384,
                 db = ex_db\<lparr>writer := True, begins := 1\<rparr>, mu_excl = False\<rparr>,
      pending = p\<rparr>"

text \<open>A visitor that fails on the key \<open>"b"\<close> and has no state of its own.\<close>

definition fails_on_b :: "unit visitor" where
  "fails_on_b k v u = (if k = [98] then (Some ''stop'', u) else (None, u))"

text \<open>The state in which \<open>CommitAndStop\<close> leaves \<open>ex_state 3 2 False\<close>.\<close>

definition ex_stopped :: batchTx where
  "ex_stopped =
     \<lparr>locked = False,
      tx = Some (ex_tx\<lparr>tx_open := False\<rparr>),
      backend = \<lparr>batchLimit = 3, commits = 1, size_metric = 16384, sizeInUse = 16384,
                 db = ex_db\<lparr>writer := False, begins := 1, flushes := 1\<rparr>, mu_excl = False\<rparr>,
      pending = 0\<rparr>"

text \<open>
  The state in which a commit that reopens (by \<open>Commit\<close> from \<open>ex_state 3 2 False\<close>, by
  \<open>Unlock\<close> from \<open>ex_state 3 3 True\<close>) leaves the example.
\<close>

definition ex_reopened :: batchTx where
  "ex_reopened =
     \<lparr>locked = False,
      tx = Some (ex_tx\<lparr>tx_Size := 20480\<rparr>),
      backend = \<lparr>batchLimit = 3, commits = 1, size_metric = 20480, sizeInUse = 16384,
                 db = ex_db\<lparr>writer := True, begins := 2, flushes := 1\<rparr>, mu_excl = False\<rparr>,
      pending = 0\<rparr>"

text \<open>The state in which \<open>UnsafePut\<close> of the key \<open>"d"\<close> in the bucket leaves \<open>ex_state 3 2 True\<close>.\<close>

definition ex_put :: batchTx where
  "ex_put =
     (ex_state 3 2 True)
       \<lparr>tx := Some (ex_tx\<lparr>buckets :=
                [([107], \<lparr>pairs_of = ex_pairs @ [([100], Some [4])], FillPercent = 50\<rparr>)]\<rparr>),
        pending := 3\<rparr>"




section \<open>Properties\<close>

lemmas ex_defs = ex_state_def ex_tx_def ex_db_def ex_backend_def ex_pairs_def ex_page_def
  ex_stopped_def ex_reopened_def to_page_def of_page_def

lemmas op_defs = Commit_def CommitAndStop_def Lock_def commit_def commit_begin_def
  DB_Begin_def Tx_Commit_def Unlock_def Mutex_Unlock_def


subsection \<open>The order of \<open>bytes.Compare\<close>\<close>

lemma bytes_Compare_eq_0: "bytes_Compare a b = 0 \<longleftrightarrow> a = b"
  by (induction a b rule: bytes_Compare.induct) auto

lemma bytes_Compare_refl: "bytes_Compare a a = 0"
  by (simp add: bytes_Compare_eq_0)


lemma bytes_Compare_trans:
  "bytes_Compare a b < 0 \<Longrightarrow> bytes_Compare b c < 0 \<Longrightarrow> bytes_Compare a c < 0"
proof (induction a b arbitrary: c rule: bytes_Compare.induct)
  case 1
  then show ?case by simp
next
  case (2 y ys)
  then show ?case by (cases c) auto
next
  case (3 x xs)
  then show ?case by simp
next
  case (4 x xs y ys)
  then show ?case by (cases c) (auto split: if_splits)
qed

lemma bytes_Compare_le_trans:
  assumes "bytes_Compare a b \<le> 0" "bytes_Compare b c < 0"
  shows "bytes_Compare a c < 0"
proof (cases "a = b")
  case True
  with assms(2) show ?thesis by simp
next
  case False
  then have "bytes_Compare a b \<noteq> 0" by (simp add: bytes_Compare_eq_0)
  with assms(1) have "bytes_Compare a b < 0" by simp
  then show ?thesis using assms(2) by (rule bytes_Compare_trans)
qed

subsection \<open>What each method does to the counters and the metrics\<close>

text \<open>
  The lemmas of this subsection describe a call that returns: what it does to the
  lock, the handle, \<open>pending\<close>, the commit counter, the two size metrics and the two
  counters of the store.
\<close>

lemmas mut_defs = UnsafeCreateBucket_def Tx_CreateBucket_def unsafePut_def UnsafePut_def
  UnsafeSeqPut_def UnsafeDelete_def Tx_Bucket_def Bucket_Put_def Bucket_Delete_def
  UnsafeRange_def UnsafeForEach_def no_result_def slice_len_def

lemma handle_inv_literal: "handle_inv (batchTx_literal b)"
  by (simp add: handle_inv_def batchTx_literal_def)

lemma commit_effect:
  assumes "commit stop t = Inr t'"
  shows "locked t' = locked t \<and> batchLimit (backend t') = batchLimit (backend t) \<and>
    (tx t \<noteq> None \<longrightarrow> tx t' \<noteq> None) \<and>
    (tx t \<noteq> None \<and> pending t = 0 \<and> \<not> stop \<longrightarrow> t' = t) \<and>
    (tx t = None \<and> stop \<longrightarrow> t' = t) \<and>
    (\<not> stop \<longrightarrow> tx t' \<noteq> None) \<and>
    (flushes (db (backend t')) = flushes (db (backend t)) \<and>
       commits (backend t') = commits (backend t) \<and> pending t' = pending t \<and>
       (tx t = None \<or> pending t = 0 \<and> \<not> stop)
     \<or> flushes (db (backend t')) = Suc (flushes (db (backend t))) \<and>
       commits (backend t') = commits (backend t) + 1 \<and> pending t' = 0 \<and> tx t \<noteq> None) \<and>
    (begins (db (backend t')) = begins (db (backend t)) \<and>
       size_metric (backend t') = size_metric (backend t) \<and>
       sizeInUse (backend t') = sizeInUse (backend t) \<and>
       (stop \<or> tx t \<noteq> None \<and> pending t = 0)
     \<or> begins (db (backend t')) = Suc (begins (db (backend t))) \<and> \<not> stop \<and>
       size_metric (backend t') = fst (page_acct (db (backend t')) (flushes (db (backend t')))) \<and>
       sizeInUse (backend t') = size_metric (backend t')
         - snd (page_acct (db (backend t')) (flushes (db (backend t')))) * PageSize (db (backend t')))"
  using assms
  by (auto simp add: commit_def commit_begin_def DB_Begin_def Tx_Commit_def Let_def
      split: if_splits option.splits sum.splits prod.splits)

lemma Unlock_effect:
  assumes "Unlock t = Inr t'" "handle_inv t"
  shows "(tx t \<noteq> None \<longrightarrow> tx t' \<noteq> None) \<and> \<not> locked t' \<and>
    batchLimit (backend t') = batchLimit (backend t) \<and>
    (tx t \<noteq> None \<and> (pending t = 0 \<or> sint (pending t) < sint (batchLimit (backend t)))
        \<longrightarrow> t' = t\<lparr>locked := False\<rparr>) \<and>
    (flushes (db (backend t')) = flushes (db (backend t)) \<and>
       commits (backend t') = commits (backend t) \<and> pending t' = pending t
     \<or> flushes (db (backend t')) = Suc (flushes (db (backend t))) \<and>
       commits (backend t') = commits (backend t) + 1 \<and> pending t' = 0) \<and>
    (begins (db (backend t')) = begins (db (backend t)) \<and>
       size_metric (backend t') = size_metric (backend t) \<and>
       sizeInUse (backend t') = sizeInUse (backend t)
     \<or> begins (db (backend t')) = Suc (begins (db (backend t))) \<and>
       size_metric (backend t') = fst (page_acct (db (backend t')) (flushes (db (backend t')))) \<and>
       sizeInUse (backend t') = size_metric (backend t')
         - snd (page_acct (db (backend t')) (flushes (db (backend t')))) * PageSize (db (backend t')))"
proof (cases "sint (batchLimit (backend t)) \<le> sint (pending t)")
  case False
  with assms show ?thesis
    by (auto simp add: Unlock_def Mutex_Unlock_def handle_inv_def split: if_splits)
next
  case True
  with assms obtain t1 where c: "commit False t = Inr t1" and u: "Mutex_Unlock (t1\<lparr>pending := 0\<rparr>) = Inr t'"
    by (auto simp add: Unlock_def split: sum.splits)
  from u have t': "t' = t1\<lparr>pending := 0, locked := False\<rparr>"
    by (auto simp add: Mutex_Unlock_def split: if_splits)
  from commit_effect [OF c] assms(2) True show ?thesis
    unfolding t' handle_inv_def by auto
qed

lemma Commit_effect:
  assumes "Commit t = Inr t'" "handle_inv t"
  shows "tx t' \<noteq> None \<and> \<not> locked t' \<and>
    (flushes (db (backend t')) = flushes (db (backend t)) \<and>
       commits (backend t') = commits (backend t) \<and> pending t' = pending t
     \<or> flushes (db (backend t')) = Suc (flushes (db (backend t))) \<and>
       commits (backend t') = commits (backend t) + 1 \<and> pending t' = 0) \<and>
    (begins (db (backend t')) = begins (db (backend t)) \<and>
       size_metric (backend t') = size_metric (backend t) \<and>
       sizeInUse (backend t') = sizeInUse (backend t)
     \<or> begins (db (backend t')) = Suc (begins (db (backend t))) \<and>
       size_metric (backend t') = fst (page_acct (db (backend t')) (flushes (db (backend t')))) \<and>
       sizeInUse (backend t') = size_metric (backend t')
         - snd (page_acct (db (backend t')) (flushes (db (backend t')))) * PageSize (db (backend t')))"
proof -
  from assms(1) obtain t2 where l: "\<not> locked t"
    and c: "commit False (t\<lparr>locked := True\<rparr>) = Inr t2" and u: "Unlock t2 = Inr t'"
    by (auto simp add: Commit_def Lock_def split: sum.splits if_splits)
  from commit_effect [OF c] assms(2)
  have t2: "tx t2 \<noteq> None" "pending t2 = 0" "locked t2"
    by (auto simp add: handle_inv_def)
  from u t2 have t': "t' = t2\<lparr>locked := False\<rparr>"
    by (auto simp add: Unlock_def Mutex_Unlock_def commit_def split: if_splits sum.splits)
  from commit_effect [OF c] assms(2) t2 show ?thesis
    unfolding t' handle_inv_def by auto
qed

lemma CommitAndStop_effect:
  assumes "CommitAndStop t = Inr t'" "handle_inv t"
  shows "(tx t \<noteq> None \<longrightarrow> tx t' \<noteq> None) \<and> \<not> locked t' \<and>
    (flushes (db (backend t')) = flushes (db (backend t)) \<and>
       commits (backend t') = commits (backend t) \<and> pending t' = pending t
     \<or> flushes (db (backend t')) = Suc (flushes (db (backend t))) \<and>
       commits (backend t') = commits (backend t) + 1 \<and> pending t' = 0) \<and>
    (begins (db (backend t')) = begins (db (backend t)) \<and>
       size_metric (backend t') = size_metric (backend t) \<and>
       sizeInUse (backend t') = sizeInUse (backend t)
     \<or> begins (db (backend t')) = Suc (begins (db (backend t))) \<and>
       size_metric (backend t') = fst (page_acct (db (backend t')) (flushes (db (backend t')))) \<and>
       sizeInUse (backend t') = size_metric (backend t')
         - snd (page_acct (db (backend t')) (flushes (db (backend t')))) * PageSize (db (backend t'))) \<and>
    (tx t \<noteq> None \<longrightarrow> begins (db (backend t')) = begins (db (backend t)) \<and>
       size_metric (backend t') = size_metric (backend t) \<and>
       sizeInUse (backend t') = sizeInUse (backend t))"
proof -
  from assms(1) obtain t2 where l: "\<not> locked t"
    and c: "commit True (t\<lparr>locked := True\<rparr>) = Inr t2" and u: "Unlock t2 = Inr t'"
    by (auto simp add: CommitAndStop_def Lock_def split: sum.splits if_splits)
  from commit_effect [OF c] assms(2)
  have t2: "pending t2 = 0" "handle_inv t2"
    by (auto simp add: handle_inv_def)
  show ?thesis
  proof (cases "tx t")
    case None
    with commit_effect [OF c] have "t2 = t\<lparr>locked := True\<rparr>" by simp
    with Unlock_effect [OF u t2(2)] show ?thesis by (simp add: None)
  next
    case (Some x)
    with commit_effect [OF c] have "tx t2 \<noteq> None" by auto
    with Unlock_effect [OF u t2(2)] t2 have t': "t' = t2\<lparr>locked := False\<rparr>" by simp
    from commit_effect [OF c] Some show ?thesis
      unfolding t' by auto
  qed
qed

lemma mutation_effect:
  assumes "is_mutation op" "run_op op (t, s) = Inr (r, t', s')"
  shows "backend t' = backend t \<and> pending t' = pending t + 1 \<and> tx t' \<noteq> None \<and>
    locked t' = locked t \<and> r = Returns_nothing \<and> s' = s"
  using assms
  by (cases op)
    (auto simp add: mut_defs Let_def split: option.splits sum.splits if_splits)

lemma read_effect:
  assumes "\<not> is_mutation op" "\<not> calls_commit op" "run_op op (t, s) = Inr (r, t', s')"
  shows "op = Op_Lock \<and> t' = t\<lparr>locked := True\<rparr> \<or> t' = t"
  using assms
  by (cases op)
    (auto simp add: mut_defs Lock_def split: option.splits sum.splits if_splits)

lemma handle_inv_run_op:
  assumes "handle_inv t" "run_op op (t, s) = Inr (r, t', s')"
  shows "handle_inv t'"
proof (cases "calls_commit op")
  case True
  then consider "op = Op_Unlock" | "op = Op_Commit" | "op = Op_CommitAndStop"
    by (cases op) auto
  then show ?thesis
  proof cases
    case 1
    with assms(2) have "Unlock t = Inr t'" by (auto simp: no_result_def split: sum.splits)
    from Unlock_effect [OF this assms(1)] assms(1) show ?thesis
      by (auto simp add: handle_inv_def)
  next
    case 2
    with assms(2) have "Commit t = Inr t'" by (auto simp: no_result_def split: sum.splits)
    from Commit_effect [OF this assms(1)] show ?thesis
      by (auto simp add: handle_inv_def)
  next
    case 3
    with assms(2) have "CommitAndStop t = Inr t'" by (auto simp: no_result_def split: sum.splits)
    from CommitAndStop_effect [OF this assms(1)] assms(1) show ?thesis
      by (auto simp add: handle_inv_def)
  qed
next
  case False
  show ?thesis
  proof (cases "is_mutation op")
    case True
    from mutation_effect [OF True assms(2)] show ?thesis by (auto simp add: handle_inv_def)
  next
    case f: False
    from read_effect [OF f False assms(2)] assms(1) show ?thesis
      by (auto simp add: handle_inv_def)
  qed
qed

subsection \<open>Construction\<close>

text \<open>
  Claim C9.  The struct literal of the constructor has no handle.  On a database
  that is open, has no writer, and whose backend lock is not held exclusively,
  \<open>newBatchTx\<close> returns, and the state it returns is the literal with the first
  write transaction as handle and with \<open>size\<close> and \<open>sizeInUse\<close> published from that
  transaction; the store has performed no flush (its field \<open>flushes\<close> is that of
  the database given), the commit counter is that of the backend given, and the
  store has begun one transaction.  So the two size metrics are first published
  before any commit.
\<close>

theorem newBatchTx_publishes_before_commit:
  assumes "opened (db b)" "\<not> writer (db b)" "\<not> mu_excl b"
  shows "tx (batchTx_literal b) = None \<and>
    newBatchTx b = Inr \<lparr>locked = False,
      tx = Some \<lparr>tx_open = True,
                 buckets = map (\<lambda>(n, pg). (n, \<lparr>pairs_of = of_page pg, FillPercent = 50\<rparr>)) (committed (db b)),
                 tx_Size = fst (page_acct (db b) (flushes (db b)))\<rparr>,
      backend = b\<lparr>db := (db b)\<lparr>writer := True, begins := begins (db b) + 1\<rparr>,
                  size_metric := fst (page_acct (db b) (flushes (db b))),
                  sizeInUse := fst (page_acct (db b) (flushes (db b)))
                     - snd (page_acct (db b) (flushes (db b))) * PageSize (db b)\<rparr>,
      pending = 0\<rparr>"
  using assms
  by (simp add: newBatchTx_def batchTx_literal_def op_defs Let_def)

theorem newBatchTx_publishes_before_commit_witness:
  "opened (db (ex_backend 3)) \<and> \<not> writer (db (ex_backend 3)) \<and> \<not> mu_excl (ex_backend 3) \<and>
   newBatchTx (ex_backend 3) = Inr (ex_state 3 0 False) \<and>
   flushes (db (backend (ex_state 3 0 False))) = flushes (db (ex_backend 3)) \<and>
   commits (backend (ex_state 3 0 False)) = commits (ex_backend 3) \<and>
   size_metric (backend (ex_state 3 0 False)) \<noteq> size_metric (ex_backend 3)"
  using newBatchTx_publishes_before_commit [of "ex_backend 3"]
  by (simp add: ex_defs)

subsection \<open>Commit with nothing pending\<close>

text \<open>
  Claim C2, as the claim states it, fails: \<open>Commit\<close> is called with \<open>pending = 0\<close>
  and no stop on the struct literal of the constructor, whose handle is nil, and
  there it opens a transaction and publishes both size metrics.
\<close>

theorem Commit_nil_handle_not_noop:
  "pending (batchTx_literal (ex_backend 3)) = 0 \<and>
   Commit (batchTx_literal (ex_backend 3)) = Inr (ex_state 3 0 False) \<and>
   tx (ex_state 3 0 False) \<noteq> tx (batchTx_literal (ex_backend 3)) \<and>
   size_metric (backend (ex_state 3 0 False)) \<noteq> size_metric (backend (batchTx_literal (ex_backend 3))) \<and>
   sizeInUse (backend (ex_state 3 0 False)) \<noteq> sizeInUse (backend (batchTx_literal (ex_backend 3)))"
  by (simp add: batchTx_literal_def op_defs ex_defs Let_def)

text \<open>
  Claim C2, amended.  In every state with a handle (open or not), \<open>pending = 0\<close>
  and the lock free, \<open>Commit\<close> returns and leaves the whole state as it was: the
  handle, the three metrics, and the store with its count of flushes and of
  transactions begun.
\<close>

theorem Commit_nothing_pending_noop:
  assumes "\<not> locked t" "tx t = Some x" "pending t = 0"
  shows "Commit t = Inr t"
  using assms by (simp add: op_defs)

theorem Commit_nothing_pending_noop_witness:
  "\<not> locked (ex_state 3 0 False) \<and> tx (ex_state 3 0 False) = Some ex_tx \<and>
   pending (ex_state 3 0 False) = 0 \<and> Commit (ex_state 3 0 False) = Inr (ex_state 3 0 False)"
  using Commit_nothing_pending_noop [of "ex_state 3 0 False" ex_tx]
  by (simp add: ex_state_def)

subsection \<open>CommitAndStop\<close>

text \<open>
  Claim C7.  In every state with the lock free, an open handle, \<open>pending > 0\<close> and
  a store whose next commit does not fail, \<open>CommitAndStop\<close> returns; the state it
  returns differs from the one before in this only: the handle is the same
  transaction, now closed; the store has performed one more flush, holds the
  buckets of the transaction as committed and has no writer; the commit counter is
  one higher; \<open>pending\<close> is 0.  The count of transactions begun is unchanged: no
  replacement is opened.
\<close>

theorem CommitAndStop_flushes_once:
  assumes "\<not> locked t" "tx t = Some x" "tx_open x" "0 < sint (pending t)"
    "commit_fault (db (backend t)) (flushes (db (backend t))) = None"
  shows "CommitAndStop t =
     Inr (t\<lparr>tx := Some (x\<lparr>tx_open := False\<rparr>),
            backend := (backend t)
              \<lparr>commits := commits (backend t) + 1,
               db := (db (backend t))
                 \<lparr>writer := False,
                  committed := map (\<lambda>(n, b). (n, to_page (pairs_of b))) (buckets x),
                  flushes := flushes (db (backend t)) + 1\<rparr>\<rparr>,
            pending := 0\<rparr>)"
  using assms by (simp add: op_defs)

theorem CommitAndStop_flushes_once_witness:
  "\<not> locked (ex_state 3 2 False) \<and> tx (ex_state 3 2 False) = Some ex_tx \<and> tx_open ex_tx \<and>
   0 < sint (pending (ex_state 3 2 False)) \<and>
   commit_fault (db (backend (ex_state 3 2 False))) (flushes (db (backend (ex_state 3 2 False)))) = None \<and>
   (case CommitAndStop (ex_state 3 2 False) of
      Inl f \<Rightarrow> False
    | Inr t' \<Rightarrow> pending t' = 0 \<and> commits (backend t') = 1 \<and> flushes (db (backend t')) = 1 \<and>
        begins (db (backend t')) = 1 \<and> \<not> writer (db (backend t')) \<and>
        tx t' = Some (ex_tx\<lparr>tx_open := False\<rparr>))"
  using CommitAndStop_flushes_once [of "ex_state 3 2 False" ex_tx]
  by (simp add: ex_defs)

text \<open>
  Claim C10.  When \<open>CommitAndStop\<close> has returned from a state with a handle, the
  handle field still holds that transaction, now closed, and \<open>pending\<close> is 0; a
  \<open>Commit\<close> in that state returns and leaves the whole state as it is: no flush,
  no transaction begun, no metric written.
\<close>

theorem Commit_after_CommitAndStop:
  assumes "CommitAndStop t = Inr t'" "tx t = Some x"
  shows "tx t' = Some (x\<lparr>tx_open := False\<rparr>) \<and> pending t' = 0 \<and> Commit t' = Inr t'"
  using assms
  by (auto simp add: op_defs split: if_splits option.splits sum.splits)

theorem Commit_after_CommitAndStop_witness:
  "CommitAndStop (ex_state 3 2 False) = Inr ex_stopped \<and>
   tx (ex_state 3 2 False) = Some ex_tx \<and>
   tx ex_stopped = Some (ex_tx\<lparr>tx_open := False\<rparr>) \<and> pending ex_stopped = 0 \<and>
   Commit ex_stopped = Inr ex_stopped"
proof -
  have c: "CommitAndStop (ex_state 3 2 False) = Inr ex_stopped"
    by (simp add: op_defs ex_defs)
  have h: "tx (ex_state 3 2 False) = Some ex_tx"
    by (simp add: ex_state_def)
  from Commit_after_CommitAndStop [OF c h] c h show ?thesis by simp
qed

subsection \<open>Unlock\<close>

text \<open>
  Claim C1, as the claim states it, fails.  On a backend with threshold 0 the
  state after \<open>newBatchTx\<close> and \<open>Lock\<close> has \<open>pending = 0\<close>, which has reached the
  threshold; \<open>Unlock\<close> calls \<open>commit\<close>, which returns at once because nothing is
  pending: the commit counter is not incremented and the store does not flush.
\<close>

theorem Unlock_zero_threshold_no_commit:
  "newBatchTx (ex_backend 0) = Inr (ex_state 0 0 False) \<and>
   Lock (ex_state 0 0 False) = Inr (ex_state 0 0 True) \<and>
   sint (batchLimit (backend (ex_state 0 0 True))) \<le> sint (pending (ex_state 0 0 True)) \<and>
   Unlock (ex_state 0 0 True) = Inr (ex_state 0 0 False) \<and>
   commits (backend (ex_state 0 0 False)) \<noteq> commits (backend (ex_state 0 0 True)) + 1 \<and>
   flushes (db (backend (ex_state 0 0 False))) = flushes (db (backend (ex_state 0 0 True)))"
  by (simp add: newBatchTx_def batchTx_literal_def op_defs ex_defs Let_def)

text \<open>
  Claim C1, amended.  In every state with the lock held and a handle, \<open>Unlock\<close>
  commits if and only if \<open>pending\<close> has reached the threshold and is not 0.  In
  that case, when the handle is open, the store's next commit does not fail, the
  database is open and the backend lock is not held exclusively, \<open>Unlock\<close>
  returns the state given below: the store has flushed the buckets of the
  transaction once and begun a new transaction on them, the commit counter is one
  higher, \<open>size\<close> and \<open>sizeInUse\<close> are published from the new transaction,
  \<open>pending\<close> is 0 and the lock is released.  Otherwise (\<open>pending\<close> below the
  threshold, or 0) \<open>Unlock\<close> returns the state as it was with the lock released.
\<close>

theorem Unlock_commit_policy:
  assumes "locked t" "tx t = Some x"
  shows
    "(sint (batchLimit (backend t)) \<le> sint (pending t) \<and> pending t \<noteq> 0 \<longrightarrow>
        tx_open x \<longrightarrow> commit_fault (db (backend t)) (flushes (db (backend t))) = None \<longrightarrow>
        opened (db (backend t)) \<longrightarrow> \<not> mu_excl (backend t) \<longrightarrow>
        Unlock t =
          Inr (let d = db (backend t);
                   n = flushes d + 1;
                   bs = map (\<lambda>(n, b). (n, to_page (pairs_of b))) (buckets x)
               in \<lparr>locked = False,
                   tx = Some \<lparr>tx_open = True,
                              buckets = map (\<lambda>(n, pg). (n, \<lparr>pairs_of = of_page pg, FillPercent = 50\<rparr>)) bs,
                              tx_Size = fst (page_acct d n)\<rparr>,
                   backend = (backend t)
                     \<lparr>commits := commits (backend t) + 1,
                      size_metric := fst (page_acct d n),
                      sizeInUse := fst (page_acct d n) - snd (page_acct d n) * PageSize d,
                      db := d\<lparr>writer := True, committed := bs, flushes := n,
                              begins := begins d + 1\<rparr>\<rparr>,
                   pending = 0\<rparr>)) \<and>
     (sint (pending t) < sint (batchLimit (backend t)) \<or> pending t = 0 \<longrightarrow>
        Unlock t = Inr (t\<lparr>locked := False\<rparr>))"
  using assms
  by (auto simp add: op_defs Let_def)

theorem Unlock_commit_policy_witness:
  "locked (ex_state 3 2 True) \<and> tx (ex_state 3 2 True) = Some ex_tx \<and>
   sint (pending (ex_state 3 2 True)) < sint (batchLimit (backend (ex_state 3 2 True))) \<and>
   Unlock (ex_state 3 2 True) = Inr (ex_state 3 2 False) \<and>
   locked (ex_state 3 3 True) \<and> tx (ex_state 3 3 True) = Some ex_tx \<and>
   sint (batchLimit (backend (ex_state 3 3 True))) \<le> sint (pending (ex_state 3 3 True)) \<and>
   pending (ex_state 3 3 True) \<noteq> 0 \<and> tx_open ex_tx \<and>
   commit_fault (db (backend (ex_state 3 3 True))) (flushes (db (backend (ex_state 3 3 True)))) = None \<and>
   opened (db (backend (ex_state 3 3 True))) \<and> \<not> mu_excl (backend (ex_state 3 3 True)) \<and>
   Unlock (ex_state 3 3 True) = Inr ex_reopened \<and>
   pending ex_reopened = 0 \<and>
   commits (backend ex_reopened) = commits (backend (ex_state 3 3 True)) + 1"
  using Unlock_commit_policy [of "ex_state 3 2 True" ex_tx]
    Unlock_commit_policy [of "ex_state 3 3 True" ex_tx]
  by (simp add: ex_defs Let_def)

text \<open>
  The scenario of the specification with threshold 3, run from the state after
  \<open>newBatchTx\<close>: two puts and \<open>Unlock\<close> leave \<open>pending = 2\<close> with no commit; a third
  put and \<open>Unlock\<close> commit once, reset \<open>pending\<close> and make the three puts durable.
\<close>

lemma threshold_scenario:
  "(case run_ops [Op_Lock, Op_UnsafePut [107] [65] (Some [1]), Op_UnsafePut [107] [66] (Some [2]), Op_Unlock]
           (ex_state 3 0 False, ()) of
      Inl f \<Rightarrow> False
    | Inr (t, u) \<Rightarrow>
        pending t = 2 \<and> commits (backend t) = 0 \<and> flushes (db (backend t)) = 0 \<and>
        (case run_ops [Op_Lock, Op_UnsafePut [107] [67] (Some [3]), Op_Unlock] (t, u) of
           Inl f \<Rightarrow> False
         | Inr (t', u') \<Rightarrow>
             pending t' = 0 \<and> commits (backend t') = 1 \<and> flushes (db (backend t')) = 1 \<and>
             map_of (committed (db (backend t'))) [107]
               = Some ([([65], [1]), ([66], [2]), ([67], [3])] @ ex_page)))"
  by (simp add: no_result_def mut_defs op_defs ex_defs Let_def MaxKeySize_def MaxValueSize_def)

subsection \<open>The pending counter\<close>

text \<open>
  Claim C4.  In every state that satisfies \<open>handle_inv\<close>, a call of a method that
  calls \<open>commit\<close> (\<open>Unlock\<close>, \<open>Commit\<close>, \<open>CommitAndStop\<close>) and returns either has
  made the store flush exactly once and leaves \<open>pending = 0\<close>, or has made no
  flush and leaves \<open>pending\<close> as it was.  A call of any other method makes no
  flush and leaves \<open>pending\<close> as it was, or one higher if the method is a mutation.
\<close>

theorem pending_zero_exactly_on_flush:
  assumes "handle_inv t" "run_op op (t, s) = Inr (r, t', s')"
  shows
    "(calls_commit op \<longrightarrow>
        flushes (db (backend t')) = Suc (flushes (db (backend t))) \<and> pending t' = 0
      \<or> flushes (db (backend t')) = flushes (db (backend t)) \<and> pending t' = pending t) \<and>
     (\<not> calls_commit op \<longrightarrow>
        flushes (db (backend t')) = flushes (db (backend t)) \<and>
        pending t' = (if is_mutation op then pending t + 1 else pending t))"
proof (cases "calls_commit op")
  case True
  then consider "op = Op_Unlock" | "op = Op_Commit" | "op = Op_CommitAndStop"
    by (cases op) auto
  then show ?thesis
  proof cases
    case 1
    with assms(2) have "Unlock t = Inr t'" by (auto simp: no_result_def split: sum.splits)
    from Unlock_effect [OF this assms(1)] True show ?thesis by auto
  next
    case 2
    with assms(2) have "Commit t = Inr t'" by (auto simp: no_result_def split: sum.splits)
    from Commit_effect [OF this assms(1)] True show ?thesis by auto
  next
    case 3
    with assms(2) have "CommitAndStop t = Inr t'" by (auto simp: no_result_def split: sum.splits)
    from CommitAndStop_effect [OF this assms(1)] True show ?thesis by auto
  qed
next
  case False
  show ?thesis
  proof (cases "is_mutation op")
    case True
    from mutation_effect [OF True assms(2)] False True show ?thesis by simp
  next
    case f: False
    from read_effect [OF f False assms(2)] False f show ?thesis by auto
  qed
qed

theorem pending_zero_exactly_on_flush_witness:
  "handle_inv (ex_state 3 3 True) \<and>
   run_op Op_Unlock (ex_state 3 3 True, ()) = Inr (Returns_nothing, ex_reopened, ()) \<and>
   calls_commit (Op_Unlock :: unit op) \<and>
   flushes (db (backend ex_reopened)) = Suc (flushes (db (backend (ex_state 3 3 True)))) \<and>
   pending ex_reopened = 0 \<and>
   handle_inv (ex_state 3 2 True) \<and>
   run_op (Op_UnsafePut [107] [100] (Some [4])) (ex_state 3 2 True, ()) = Inr (Returns_nothing, ex_put, ()) \<and>
   \<not> calls_commit (Op_UnsafePut [107] [100] (Some [4]) :: unit op) \<and>
   flushes (db (backend ex_put)) = flushes (db (backend (ex_state 3 2 True))) \<and>
   pending ex_put = pending (ex_state 3 2 True) + 1"
proof -
  have h: "handle_inv (ex_state 3 3 True)"
    by (simp add: handle_inv_def ex_state_def)
  have r: "run_op Op_Unlock (ex_state 3 3 True, ()) = Inr (Returns_nothing, ex_reopened, ())"
    by (simp add: no_result_def op_defs ex_defs Let_def)
  have h': "handle_inv (ex_state 3 2 True)"
    by (simp add: handle_inv_def ex_state_def)
  have r': "run_op (Op_UnsafePut [107] [100] (Some [4])) (ex_state 3 2 True, ()) = Inr (Returns_nothing, ex_put, ())"
    by (simp add: mut_defs ex_defs ex_put_def MaxKeySize_def MaxValueSize_def)
  from pending_zero_exactly_on_flush [OF h r] pending_zero_exactly_on_flush [OF h' r'] h r h' r'
  show ?thesis
    by (simp add: ex_defs ex_put_def)
qed

subsection \<open>The metrics\<close>

text \<open>
  Claim C3, as the claim states it, fails in both directions.  \<open>newBatchTx\<close>
  changes \<open>size\<close> and \<open>sizeInUse\<close> although the store has not flushed and the commit
  counter has not moved; and \<open>CommitAndStop\<close> makes the store flush and counts the
  commit but leaves \<open>size\<close> as it was, which is then not the size of the store.
\<close>

theorem metrics_not_only_by_commit:
  "newBatchTx (ex_backend 3) = Inr (ex_state 3 0 False) \<and>
   flushes (db (backend (ex_state 3 0 False))) = flushes (db (ex_backend 3)) \<and>
   commits (backend (ex_state 3 0 False)) = commits (ex_backend 3) \<and>
   size_metric (backend (ex_state 3 0 False)) \<noteq> size_metric (ex_backend 3) \<and>
   sizeInUse (backend (ex_state 3 0 False)) \<noteq> sizeInUse (ex_backend 3) \<and>
   CommitAndStop (ex_state 3 2 False) = Inr ex_stopped \<and>
   flushes (db (backend ex_stopped)) = Suc (flushes (db (backend (ex_state 3 2 False)))) \<and>
   commits (backend ex_stopped) = commits (backend (ex_state 3 2 False)) + 1 \<and>
   size_metric (backend ex_stopped) = size_metric (backend (ex_state 3 2 False)) \<and>
   size_metric (backend ex_stopped)
     \<noteq> fst (page_acct (db (backend ex_stopped)) (flushes (db (backend ex_stopped))))"
  by (simp add: newBatchTx_def batchTx_literal_def op_defs ex_defs Let_def)

text \<open>
  Claim C3, amended.  In every state that satisfies \<open>handle_inv\<close>, a call that
  returns has either left the commit counter as it was, the store not having
  flushed, or incremented it by one, the store having flushed once.  It has either
  left \<open>size\<close> and \<open>sizeInUse\<close> as they were, the store not having begun a
  transaction, or the store has begun one transaction and \<open>size\<close> and \<open>sizeInUse\<close>
  are what the store's page accounting now gives.  A method that does not call
  \<open>commit\<close> makes neither a flush nor a begin, so changes none of the three;
  \<open>CommitAndStop\<close> on a state with a handle makes no begin, so leaves the two
  size metrics.
\<close>

theorem metrics_written_by_flush_and_begin:
  assumes "handle_inv t" "run_op op (t, s) = Inr (r, t', s')"
  shows
    "(flushes (db (backend t')) = flushes (db (backend t)) \<and>
        commits (backend t') = commits (backend t)
      \<or> flushes (db (backend t')) = Suc (flushes (db (backend t))) \<and>
        commits (backend t') = commits (backend t) + 1) \<and>
     (begins (db (backend t')) = begins (db (backend t)) \<and>
        size_metric (backend t') = size_metric (backend t) \<and>
        sizeInUse (backend t') = sizeInUse (backend t)
      \<or> begins (db (backend t')) = Suc (begins (db (backend t))) \<and>
        size_metric (backend t') = fst (page_acct (db (backend t')) (flushes (db (backend t')))) \<and>
        sizeInUse (backend t') = size_metric (backend t')
          - snd (page_acct (db (backend t')) (flushes (db (backend t')))) * PageSize (db (backend t'))) \<and>
     (\<not> calls_commit op \<longrightarrow>
        flushes (db (backend t')) = flushes (db (backend t)) \<and>
        begins (db (backend t')) = begins (db (backend t))) \<and>
     (op = Op_CommitAndStop \<and> tx t \<noteq> None \<longrightarrow>
        begins (db (backend t')) = begins (db (backend t)))"
proof (cases "calls_commit op")
  case True
  then consider "op = Op_Unlock" | "op = Op_Commit" | "op = Op_CommitAndStop"
    by (cases op) auto
  then show ?thesis
  proof cases
    case 1
    with assms(2) have "Unlock t = Inr t'" by (auto simp: no_result_def split: sum.splits)
    from Unlock_effect [OF this assms(1)] True 1 show ?thesis by auto
  next
    case 2
    with assms(2) have "Commit t = Inr t'" by (auto simp: no_result_def split: sum.splits)
    from Commit_effect [OF this assms(1)] True 2 show ?thesis by auto
  next
    case 3
    with assms(2) have "CommitAndStop t = Inr t'" by (auto simp: no_result_def split: sum.splits)
    from CommitAndStop_effect [OF this assms(1)] True show ?thesis by auto
  qed
next
  case False
  show ?thesis
  proof (cases "is_mutation op")
    case True
    from mutation_effect [OF True assms(2)] False True show ?thesis by auto
  next
    case f: False
    from read_effect [OF f False assms(2)] False f show ?thesis by auto
  qed
qed

theorem metrics_written_by_flush_and_begin_witness:
  "handle_inv (ex_state 3 2 False) \<and>
   run_op Op_Commit (ex_state 3 2 False, ()) = Inr (Returns_nothing, ex_reopened, ()) \<and>
   flushes (db (backend ex_reopened)) = Suc (flushes (db (backend (ex_state 3 2 False)))) \<and>
   commits (backend ex_reopened) = commits (backend (ex_state 3 2 False)) + 1 \<and>
   begins (db (backend ex_reopened)) = Suc (begins (db (backend (ex_state 3 2 False)))) \<and>
   size_metric (backend ex_reopened) = 20480 \<and> sizeInUse (backend ex_reopened) = 16384 \<and>
   run_op Op_CommitAndStop (ex_state 3 2 False, ()) = Inr (Returns_nothing, ex_stopped, ()) \<and>
   tx (ex_state 3 2 False) \<noteq> None \<and>
   begins (db (backend ex_stopped)) = begins (db (backend (ex_state 3 2 False))) \<and>
   handle_inv (ex_state 3 2 True) \<and>
   run_op (Op_UnsafePut [107] [100] (Some [4])) (ex_state 3 2 True, ()) = Inr (Returns_nothing, ex_put, ()) \<and>
   \<not> calls_commit (Op_UnsafePut [107] [100] (Some [4]) :: unit op) \<and>
   backend ex_put = backend (ex_state 3 2 True)"
proof -
  have h: "handle_inv (ex_state 3 2 False)"
    by (simp add: handle_inv_def ex_state_def)
  have r: "run_op Op_Commit (ex_state 3 2 False, ()) = Inr (Returns_nothing, ex_reopened, ())"
    by (simp add: no_result_def op_defs ex_defs Let_def)
  have r2: "run_op Op_CommitAndStop (ex_state 3 2 False, ()) = Inr (Returns_nothing, ex_stopped, ())"
    by (simp add: no_result_def op_defs ex_defs Let_def)
  have h': "handle_inv (ex_state 3 2 True)"
    by (simp add: handle_inv_def ex_state_def)
  have r': "run_op (Op_UnsafePut [107] [100] (Some [4])) (ex_state 3 2 True, ()) = Inr (Returns_nothing, ex_put, ())"
    by (simp add: mut_defs ex_defs ex_put_def MaxKeySize_def MaxValueSize_def)
  from metrics_written_by_flush_and_begin [OF h r] metrics_written_by_flush_and_begin [OF h r2]
    metrics_written_by_flush_and_begin [OF h' r'] h r r2 h' r'
  show ?thesis
    by (simp add: ex_defs ex_put_def)
qed

subsection \<open>UnsafeCreateBucket\<close>






subsection \<open>UnsafeForEach\<close>

lemma traced_apply:
  "traced fn k v (s, calls) = (case fn k v s of (r, s') \<Rightarrow> (r, (s', calls @ [(k, v, r)])))"
  by (simp add: traced_def)

lemma Bucket_ForEach_traced:
  assumes "Bucket_ForEach (traced fn) ps (s, acc) = (err, (s', calls))"
  shows "\<exists>new. calls = acc @ new \<and> visited new = take (length new) ps \<and>
           (case err of
              None \<Rightarrow> length new = length ps \<and> returned new = replicate (length new) None
            | Some e \<Rightarrow> new \<noteq> [] \<and>
                returned new = replicate (length new - 1) None @ [Some e]) \<and>
           Bucket_ForEach fn ps s = (err, s')"
  using assms
proof (induction ps arbitrary: s acc)
  case Nil
  then show ?case by (simp add: visited_def returned_def)
next
  case (Cons p ps)
  obtain k v where p: "p = (k, v)" by (cases p)
  obtain r s1 where f: "fn k v s = (r, s1)" by (cases "fn k v s")
  show ?case
  proof (cases r)
    case (Some e)
    with Cons.prems f have "err = Some e" "s' = s1" "calls = acc @ [(k, v, Some e)]"
      by (auto simp add: p traced_apply)
    with f Some show ?thesis
      by (simp add: p visited_def returned_def)
  next
    case None
    with Cons.prems f
    have "Bucket_ForEach (traced fn) ps (s1, acc @ [(k, v, None)]) = (err, (s', calls))"
      by (simp add: p traced_apply)
    from Cons.IH [OF this] obtain new where
      n: "calls = (acc @ [(k, v, None)]) @ new" "visited new = take (length new) ps"
        "case err of
              None \<Rightarrow> length new = length ps \<and> returned new = replicate (length new) None
            | Some e \<Rightarrow> new \<noteq> [] \<and>
                returned new = replicate (length new - 1) None @ [Some e]"
        "Bucket_ForEach fn ps s1 = (err, s')"
      by blast
    let ?new = "(k, v, None) # new"
    have "calls = acc @ ?new" using n(1) by simp
    moreover have "visited ?new = take (length ?new) (p # ps)"
      using n(2) by (simp add: p visited_def)
    moreover have "case err of
              None \<Rightarrow> length ?new = length (p # ps) \<and> returned ?new = replicate (length ?new) None
            | Some e \<Rightarrow> ?new \<noteq> [] \<and>
                returned ?new = replicate (length ?new - 1) None @ [Some e]"
    proof (cases err)
      case None
      with n(3) show ?thesis by (simp add: returned_def)
    next
      case (Some e)
      with n(3) have "new \<noteq> []" by simp
      then obtain m where "length new = Suc m" by (cases new) auto
      with n(3) Some show ?thesis by (simp add: returned_def)
    qed
    moreover have "Bucket_ForEach fn (p # ps) s = (err, s')"
      using n(4) f None by (simp add: p)
    ultimately show ?thesis by blast
  qed
qed

lemma ascending_take: "ascending ks \<Longrightarrow> ascending (take n ks)"
  by (simp add: ascending_def sorted_wrt_take)

text \<open>
  Claim C6.  On an open handle: for a name that is no bucket, \<open>UnsafeForEach\<close>
  returns \<open>nil\<close> without calling the visitor (the visitor's state is as before).
  For a bucket, the run with the recording visitor returns what the run with the
  visitor itself returns, and its record shows: the pairs visited are an initial
  segment of the pairs of the bucket in cursor order, hence in ascending key
  order when the bucket is; when \<open>nil\<close> is returned every pair has been visited
  and the visitor has returned \<open>nil\<close> each time; when an error is returned the
  visitor has returned \<open>nil\<close> on every pair but the last visited, and that error on
  the last.  Among the ten methods, only \<open>UnsafeForEach\<close> returns an error to
  the caller.  The witness is the bucket with keys \<open>"a"\<close>, \<open>"b"\<close>, \<open>"c"\<close> and a visitor
  failing on \<open>"b"\<close>: exactly \<open>"a"\<close> and \<open>"b"\<close> are visited.
\<close>

theorem UnsafeForEach_visits:
  assumes "tx t = Some x" "tx_open x"
  shows
    "(map_of (buckets x) name = None \<longrightarrow> UnsafeForEach name fn t s = Inr (None, s)) \<and>
     (\<forall>b. map_of (buckets x) name = Some b \<longrightarrow>
        (\<exists>err s' calls.
           UnsafeForEach name (traced fn) t (s, []) = Inr (err, (s', calls)) \<and>
           UnsafeForEach name fn t s = Inr (err, s') \<and>
           visited calls = take (length calls) (pairs_of b) \<and>
           (ascending (map fst (pairs_of b)) \<longrightarrow> ascending (map fst (visited calls))) \<and>
           (case err of
              None \<Rightarrow> length calls = length (pairs_of b) \<and>
                returned calls = replicate (length calls) None
            | Some e \<Rightarrow> calls \<noteq> [] \<and>
                returned calls = replicate (length calls - 1) None @ [Some e]))) \<and>
     (\<forall>op e r. run_op op (t, s) = Inr (Returns_error (Some e), r) \<longrightarrow>
        (\<exists>b visitor. op = Op_UnsafeForEach b visitor))"
proof (intro conjI allI impI)
  assume "map_of (buckets x) name = None"
  with assms show "UnsafeForEach name fn t s = Inr (None, s)"
    by (simp add: UnsafeForEach_def Tx_Bucket_def)
next
  fix b assume b: "map_of (buckets x) name = Some b"
  obtain err s' calls where
    r: "Bucket_ForEach (traced fn) (pairs_of b) (s, []) = (err, (s', calls))"
    by (metis surj_pair)
  from Bucket_ForEach_traced [OF r] have
    n: "visited calls = take (length calls) (pairs_of b)"
       "case err of
          None \<Rightarrow> length calls = length (pairs_of b) \<and>
            returned calls = replicate (length calls) None
        | Some e \<Rightarrow> calls \<noteq> [] \<and>
            returned calls = replicate (length calls - 1) None @ [Some e]"
       "Bucket_ForEach fn (pairs_of b) s = (err, s')"
    by auto
  have "ascending (map fst (pairs_of b)) \<longrightarrow> ascending (map fst (visited calls))"
    by (simp add: n(1) take_map [symmetric] ascending_take)
  with assms b r n
  show "\<exists>err s' calls.
           UnsafeForEach name (traced fn) t (s, []) = Inr (err, (s', calls)) \<and>
           UnsafeForEach name fn t s = Inr (err, s') \<and>
           visited calls = take (length calls) (pairs_of b) \<and>
           (ascending (map fst (pairs_of b)) \<longrightarrow> ascending (map fst (visited calls))) \<and>
           (case err of
              None \<Rightarrow> length calls = length (pairs_of b) \<and>
                returned calls = replicate (length calls) None
            | Some e \<Rightarrow> calls \<noteq> [] \<and>
                returned calls = replicate (length calls - 1) None @ [Some e])"
    by (intro exI [of _ err] exI [of _ s'] exI [of _ calls])
       (simp add: UnsafeForEach_def Tx_Bucket_def)
next
  fix op :: "'a op" and e r
  assume "run_op op (t, s) = Inr (Returns_error (Some e), r)"
  then show "\<exists>b visitor. op = Op_UnsafeForEach b visitor"
    by (cases op) (auto simp add: no_result_def split: sum.splits prod.splits)
qed

theorem UnsafeForEach_visits_witness:
  "tx (ex_state 3 0 True) = Some ex_tx \<and> tx_open ex_tx \<and>
   map_of (buckets ex_tx) [120] = None \<and>
   UnsafeForEach [120] fails_on_b (ex_state 3 0 True) () = Inr (None, ()) \<and>
   map_of (buckets ex_tx) [107] = Some \<lparr>pairs_of = ex_pairs, FillPercent = 50\<rparr> \<and>
   ascending (map fst ex_pairs) \<and>
   UnsafeForEach [107] (traced fails_on_b) (ex_state 3 0 True) ((), [])
     = Inr (Some ''stop'', ((), [([97], Some [1], None), ([98], Some [2], Some ''stop'')])) \<and>
   UnsafeForEach [107] fails_on_b (ex_state 3 0 True) () = Inr (Some ''stop'', ()) \<and>
   run_op (Op_UnsafeForEach [107] fails_on_b) (ex_state 3 0 True, ())
     = Inr (Returns_error (Some ''stop''), (ex_state 3 0 True, ()))"
  using UnsafeForEach_visits [of "ex_state 3 0 True" ex_tx "[120]" fails_on_b "()"]
    UnsafeForEach_visits [of "ex_state 3 0 True" ex_tx "[107]" fails_on_b "()"]
  by (simp add: ex_defs UnsafeForEach_def Tx_Bucket_def traced_apply fails_on_b_def ascending_def)

subsection \<open>UnsafeRange\<close>














end
